theory Spec2Isabelle
  imports Complex_Main
begin

unbundle bit_operations_syntax

section \<open>Geohash codec of \<^verbatim>\<open>pkg/utils/geohash.go\<close>\<close>

text \<open>
  The Go package \<^verbatim>\<open>utils\<close> encodes a latitude/longitude pair into a base-32 cell
  string and back. The embedding follows the source function by function.

  \<^item> A Go \<^verbatim>\<open>string\<close> is a sequence of bytes: it is a \<^typ>\<open>string\<close> (a list of
    8-bit \<^typ>\<open>char\<close>). \<^verbatim>\<open>len\<close> counts bytes, \<^verbatim>\<open>range\<close> iterates over the
    UTF-8 decoded code points (function \<open>runes\<close> below).
  \<^item> A Go \<^verbatim>\<open>int\<close> is an \<^typ>\<open>int\<close>; no arithmetic of the source on an \<^verbatim>\<open>int\<close>
    leaves the range 0..12 unchecked, so wrap-around never arises.
  \<^item> A \<^verbatim>\<open>float64\<close> is a \<^typ>\<open>real\<close>. Every range bound the codec computes for a
    cell of at most 12 characters is an integer multiple of \<open>45 / 2 ^ 27\<close> of
    magnitude at most 180, which a \<^verbatim>\<open>float64\<close> holds exactly, so halving and
    comparing are the exact operations there. Rounding, infinities and NaN are
    not part of the model.
  \<^item> An error return is the left summand of \<open>error + 'a\<close>; an index out of range,
    where Go panics, is an error value of its own.
\<close>

datatype error =
    ErrInvalidLatitude
  | ErrInvalidLongitude
  | ErrInvalidPrecision
  | ErrEmptyGeohash
  | ErrInvalidCharacter
  | PanicIndexOutOfRange

definition base32 :: string where
  "base32 = ''0123456789bcdefghjkmnpqrstuvwxyz''"

definition DefaultPrecision :: int where
  "DefaultPrecision = 8"

subsection \<open>Iterating over a Go string\<close>

text \<open>
  \<^verbatim>\<open>for _, char := range s\<close> yields the code points of \<^verbatim>\<open>s\<close>: one per well-formed
  UTF-8 sequence, and \<^verbatim>\<open>0xFFFD\<close> for a byte that starts no well-formed sequence,
  after which the iteration advances by that single byte. The accepted second-byte
  ranges are those of Go's decoder: no overlong forms, no surrogates, nothing above
  \<^verbatim>\<open>0x10FFFF\<close>.
\<close>

definition RuneError :: nat where
  "RuneError = 0xFFFD"

definition inRange :: "nat \<Rightarrow> nat \<Rightarrow> char \<Rightarrow> bool" where
  "inRange lo hi c = (lo \<le> of_char c \<and> (of_char c :: nat) \<le> hi)"

definition contBits :: "char \<Rightarrow> nat" where
  "contBits c = of_char c mod 64"

fun runes :: "string \<Rightarrow> nat list" where
  "runes [] = []"
| "runes (b0 # rest) =
     (let x = (of_char b0 :: nat) in
      if x < 0x80 then x # runes rest
      else if 0xC2 \<le> x \<and> x \<le> 0xDF then
        (case rest of
           b1 # r1 \<Rightarrow>
             if inRange 0x80 0xBF b1
             then ((x mod 32) * 64 + contBits b1) # runes r1
             else RuneError # runes rest
         | _ \<Rightarrow> RuneError # runes rest)
      else if 0xE0 \<le> x \<and> x \<le> 0xEF then
        (case rest of
           b1 # b2 # r2 \<Rightarrow>
             if inRange (if x = 0xE0 then 0xA0 else 0x80) (if x = 0xED then 0x9F else 0xBF) b1
                \<and> inRange 0x80 0xBF b2
             then ((x mod 16) * 4096 + contBits b1 * 64 + contBits b2) # runes r2
             else RuneError # runes rest
         | _ \<Rightarrow> RuneError # runes rest)
      else if 0xF0 \<le> x \<and> x \<le> 0xF4 then
        (case rest of
           b1 # b2 # b3 # r3 \<Rightarrow>
             if inRange (if x = 0xF0 then 0x90 else 0x80) (if x = 0xF4 then 0x8F else 0xBF) b1
                \<and> inRange 0x80 0xBF b2 \<and> inRange 0x80 0xBF b3
             then ((x mod 8) * 262144 + contBits b1 * 4096 + contBits b2 * 64 + contBits b3)
                    # runes r3
             else RuneError # runes rest
         | _ \<Rightarrow> RuneError # runes rest)
      else RuneError # runes rest)"

text \<open>The conversion \<^verbatim>\<open>byte(char)\<close> of a code point keeps its low eight bits.\<close>

definition byte_of_rune :: "nat \<Rightarrow> char" where
  "byte_of_rune r = char_of r"

subsection \<open>\<^verbatim>\<open>indexInBase32\<close>\<close>

function indexInBase32_loop :: "nat \<Rightarrow> char \<Rightarrow> int" where
  "indexInBase32_loop i c =
     (if i < length base32
      then (if base32 ! i = c then int i else indexInBase32_loop (i + 1) c)
      else - 1)"
  by pat_completeness auto
termination
  by (relation "measure (\<lambda>(i, c). length base32 - i)") auto

declare indexInBase32_loop.simps [simp del]

definition indexInBase32 :: "char \<Rightarrow> int" where
  "indexInBase32 c = indexInBase32_loop 0 c"

subsection \<open>\<^verbatim>\<open>Encode\<close>\<close>

text \<open>
  The loop variables. A range \<^verbatim>\<open>[2]float64\<close> is the pair of its two elements.
  \<^verbatim>\<open>Encode\<close>, \<^verbatim>\<open>Decode\<close> and \<^verbatim>\<open>BoundingBox\<close> all keep \<^verbatim>\<open>latRange\<close>,
  \<^verbatim>\<open>lonRange\<close> and \<^verbatim>\<open>even\<close> (here \<open>even'\<close>); \<^verbatim>\<open>Encode\<close> adds \<^verbatim>\<open>bits\<close> and \<^verbatim>\<open>ch\<close>. Its
  variable \<^verbatim>\<open>bit\<close> is written and never read; it is left out.
\<close>

record ranges =
  latRange :: "real \<times> real"
  lonRange :: "real \<times> real"
  even' :: bool

record enc_state = ranges +
  bits :: int
  ch :: int

text \<open>The body of the inner loop \<^verbatim>\<open>for bits < 5\<close>.\<close>

definition enc_step :: "real \<Rightarrow> real \<Rightarrow> enc_state \<Rightarrow> enc_state" where
  "enc_step lat lon s =
     (let s1 =
        (if even' s then
           (let mid = (fst (lonRange s) + snd (lonRange s)) / 2 in
            if lon > mid
            then s\<lparr>ch := ch s OR push_bit (nat (4 - bits s)) 1,
                   lonRange := (mid, snd (lonRange s))\<rparr>
            else s\<lparr>lonRange := (fst (lonRange s), mid)\<rparr>)
         else
           (let mid = (fst (latRange s) + snd (latRange s)) / 2 in
            if lat > mid
            then s\<lparr>ch := ch s OR push_bit (nat (4 - bits s)) 1,
                   latRange := (mid, snd (latRange s))\<rparr>
            else s\<lparr>latRange := (fst (latRange s), mid)\<rparr>))
      in s1\<lparr>even' := \<not> even' s1, bits := bits s1 + 1\<rparr>)"

function enc_bits :: "real \<Rightarrow> real \<Rightarrow> enc_state \<Rightarrow> enc_state" where
  "enc_bits lat lon s = (if bits s < 5 then enc_bits lat lon (enc_step lat lon s) else s)"
  by pat_completeness auto
termination
  by (relation "measure (\<lambda>(lat, lon, s). nat (5 - bits s))")
     (auto simp: enc_step_def Let_def)

declare enc_bits.simps [simp del]

text \<open>
  The outer loop \<^verbatim>\<open>for i := 0; i < precision; i++\<close>. The two indexing expressions
  \<^verbatim>\<open>base32[ch]\<close> and \<^verbatim>\<open>geohash[i]\<close> panic out of range.
\<close>

function enc_chars :: "real \<Rightarrow> real \<Rightarrow> int \<Rightarrow> int \<Rightarrow> enc_state \<Rightarrow> string \<Rightarrow> error + string" where
  "enc_chars lat lon precision i s geohash =
     (if i < precision then
        (let s' = enc_bits lat lon s in
         if 0 \<le> ch s' \<and> ch s' < int (length base32) \<and> 0 \<le> i \<and> i < int (length geohash)
         then enc_chars lat lon precision (i + 1) (s'\<lparr>bits := 0, ch := 0\<rparr>)
                (geohash[nat i := base32 ! nat (ch s')])
         else Inl PanicIndexOutOfRange)
      else Inr geohash)"
  by pat_completeness auto
termination
  by (relation "measure (\<lambda>(lat, lon, precision, i, s, geohash). nat (precision - i))") auto

declare enc_chars.simps [simp del]

definition enc_init :: enc_state where
  "enc_init = \<lparr>latRange = (- 90, 90), lonRange = (- 180, 180), even' = True, bits = 0, ch = 0\<rparr>"

definition Encode :: "real \<Rightarrow> real \<Rightarrow> int \<Rightarrow> error + string" where
  "Encode lat lon precision =
     (if lat < - 90 \<or> lat > 90 then Inl ErrInvalidLatitude
      else if lon < - 180 \<or> lon > 180 then Inl ErrInvalidLongitude
      else if precision < 1 \<or> precision > 12 then Inl ErrInvalidPrecision
      else enc_chars lat lon precision 0 enc_init (replicate (nat precision) (CHR 0x00)))"

definition EncodeWithDefault :: "real \<Rightarrow> real \<Rightarrow> error + string" where
  "EncodeWithDefault lat lon = Encode lat lon DefaultPrecision"

subsection \<open>\<^verbatim>\<open>Decode\<close>\<close>

text \<open>The body of the loop \<^verbatim>\<open>for i := 4; i >= 0; i--\<close> over the bits of \<^verbatim>\<open>idx\<close>.\<close>

definition dec_step :: "int \<Rightarrow> int \<Rightarrow> ranges \<Rightarrow> ranges" where
  "dec_step idx i s =
     (let bit = (drop_bit (nat i) idx) AND 1;
          s1 =
            (if even' s then
               (let mid = (fst (lonRange s) + snd (lonRange s)) / 2 in
                if bit = 1
                then s\<lparr>lonRange := (mid, snd (lonRange s))\<rparr>
                else s\<lparr>lonRange := (fst (lonRange s), mid)\<rparr>)
             else
               (let mid = (fst (latRange s) + snd (latRange s)) / 2 in
                if bit = 1
                then s\<lparr>latRange := (mid, snd (latRange s))\<rparr>
                else s\<lparr>latRange := (fst (latRange s), mid)\<rparr>))
      in s1\<lparr>even' := \<not> even' s1\<rparr>)"

function dec_bits :: "int \<Rightarrow> int \<Rightarrow> ranges \<Rightarrow> ranges" where
  "dec_bits idx i s = (if i \<ge> 0 then dec_bits idx (i - 1) (dec_step idx i s) else s)"
  by pat_completeness auto
termination
  by (relation "measure (\<lambda>(idx, i, s). nat (i + 1))") auto

declare dec_bits.simps [simp del]

text \<open>The loop \<^verbatim>\<open>for _, char := range geohash\<close>, over the code points of the string.\<close>

fun dec_chars :: "nat list \<Rightarrow> ranges \<Rightarrow> error + ranges" where
  "dec_chars [] s = Inr s"
| "dec_chars (char # cs) s =
     (let idx = indexInBase32 (byte_of_rune char) in
      if idx = - 1 then Inl ErrInvalidCharacter
      else dec_chars cs (dec_bits idx 4 s))"

definition dec_init :: ranges where
  "dec_init = \<lparr>latRange = (- 90, 90), lonRange = (- 180, 180), even' = True\<rparr>"

text \<open>\<^verbatim>\<open>Decode\<close> returns \<^verbatim>\<open>(lat, lon)\<close>.\<close>

definition Decode :: "string \<Rightarrow> error + real \<times> real" where
  "Decode geohash =
     (if length geohash = 0 then Inl ErrEmptyGeohash
      else case dec_chars (runes geohash) dec_init of
             Inl e \<Rightarrow> Inl e
           | Inr s \<Rightarrow>
               Inr ((fst (latRange s) + snd (latRange s)) / 2,
                    (fst (lonRange s) + snd (lonRange s)) / 2))"

subsection \<open>\<^verbatim>\<open>BoundingBox\<close>\<close>

text \<open>
  The source repeats the two loops of \<^verbatim>\<open>Decode\<close> in \<^verbatim>\<open>BoundingBox\<close>; so does the
  embedding.
\<close>

definition bbox_step :: "int \<Rightarrow> int \<Rightarrow> ranges \<Rightarrow> ranges" where
  "bbox_step idx i s =
     (let bit = (drop_bit (nat i) idx) AND 1;
          s1 =
            (if even' s then
               (let mid = (fst (lonRange s) + snd (lonRange s)) / 2 in
                if bit = 1
                then s\<lparr>lonRange := (mid, snd (lonRange s))\<rparr>
                else s\<lparr>lonRange := (fst (lonRange s), mid)\<rparr>)
             else
               (let mid = (fst (latRange s) + snd (latRange s)) / 2 in
                if bit = 1
                then s\<lparr>latRange := (mid, snd (latRange s))\<rparr>
                else s\<lparr>latRange := (fst (latRange s), mid)\<rparr>))
      in s1\<lparr>even' := \<not> even' s1\<rparr>)"

function bbox_bits :: "int \<Rightarrow> int \<Rightarrow> ranges \<Rightarrow> ranges" where
  "bbox_bits idx i s = (if i \<ge> 0 then bbox_bits idx (i - 1) (bbox_step idx i s) else s)"
  by pat_completeness auto
termination
  by (relation "measure (\<lambda>(idx, i, s). nat (i + 1))") auto

declare bbox_bits.simps [simp del]

fun bbox_chars :: "nat list \<Rightarrow> ranges \<Rightarrow> error + ranges" where
  "bbox_chars [] s = Inr s"
| "bbox_chars (char # cs) s =
     (let idx = indexInBase32 (byte_of_rune char) in
      if idx = - 1 then Inl ErrInvalidCharacter
      else bbox_chars cs (bbox_bits idx 4 s))"

text \<open>\<^verbatim>\<open>BoundingBox\<close> returns \<^verbatim>\<open>(minLat, maxLat, minLon, maxLon)\<close>.\<close>

definition BoundingBox :: "string \<Rightarrow> error + real \<times> real \<times> real \<times> real" where
  "BoundingBox geohash =
     (if length geohash = 0 then Inl ErrEmptyGeohash
      else case bbox_chars (runes geohash) dec_init of
             Inl e \<Rightarrow> Inl e
           | Inr s \<Rightarrow>
               Inr (fst (latRange s), snd (latRange s), fst (lonRange s), snd (lonRange s)))"

subsection \<open>\<^verbatim>\<open>Neighbors\<close>\<close>

text \<open>
  One compass direction: \<^verbatim>\<open>if n, err := Encode(...); err == nil { neighbors =
  append(neighbors, n) }\<close>.
\<close>

definition append_if_ok :: "string list \<Rightarrow> error + string \<Rightarrow> string list" where
  "append_if_ok neighbors r = (case r of Inl err \<Rightarrow> neighbors | Inr n \<Rightarrow> neighbors @ [n])"

definition Neighbors :: "string \<Rightarrow> error + string list" where
  "Neighbors geohash =
     (if length geohash = 0 then Inl ErrEmptyGeohash
      else case Decode geohash of
        Inl err \<Rightarrow> Inl err
      | Inr (lat, lon) \<Rightarrow>
         (case BoundingBox geohash of
            Inl err \<Rightarrow> Inl err
          | Inr (minLat, maxLat, minLon, maxLon) \<Rightarrow>
             (let latStep = maxLat - minLat;
                  lonStep = maxLon - minLon;
                  precision = int (length geohash);
                  neighbors = [];
                  neighbors = append_if_ok neighbors (Encode (lat + latStep) lon precision);
                  neighbors = append_if_ok neighbors (Encode (lat - latStep) lon precision);
                  neighbors = append_if_ok neighbors (Encode lat (lon + lonStep) precision);
                  neighbors = append_if_ok neighbors (Encode lat (lon - lonStep) precision);
                  neighbors = append_if_ok neighbors (Encode (lat + latStep) (lon + lonStep) precision);
                  neighbors = append_if_ok neighbors (Encode (lat + latStep) (lon - lonStep) precision);
                  neighbors = append_if_ok neighbors (Encode (lat - latStep) (lon + lonStep) precision);
                  neighbors = append_if_ok neighbors (Encode (lat - latStep) (lon - lonStep) precision)
              in Inr neighbors)))"

subsection \<open>\<^verbatim>\<open>Distance\<close>\<close>

definition degToRad :: "real \<Rightarrow> real" where
  "degToRad deg = deg * pi / 180"

text \<open>
  \<^verbatim>\<open>math.Atan2(y, x)\<close> is the angle of the point \<open>(x, y)\<close> in \<open>(-\<pi>, \<pi>]\<close>, and 0 at the
  origin; \<^verbatim>\<open>math.Sqrt\<close> is \<^const>\<open>sqrt\<close> on the non-negative arguments it is given here.
\<close>

definition Atan2 :: "real \<Rightarrow> real \<Rightarrow> real" where
  "Atan2 y x =
     (if x > 0 then arctan (y / x)
      else if x < 0 then (if y \<ge> 0 then arctan (y / x) + pi else arctan (y / x) - pi)
      else if y > 0 then pi / 2
      else if y < 0 then - (pi / 2)
      else 0)"

definition earthRadiusKm :: real where
  "earthRadiusKm = 6371"

definition haversineDistance :: "real \<Rightarrow> real \<Rightarrow> real \<Rightarrow> real \<Rightarrow> real" where
  "haversineDistance lat1 lon1 lat2 lon2 =
     (let dLat = degToRad (lat2 - lat1);
          dLon = degToRad (lon2 - lon1);
          lat1Rad = degToRad lat1;
          lat2Rad = degToRad lat2;
          a = sin (dLat / 2) * sin (dLat / 2)
              + sin (dLon / 2) * sin (dLon / 2) * cos lat1Rad * cos lat2Rad;
          c = 2 * Atan2 (sqrt a) (sqrt (1 - a))
      in earthRadiusKm * c)"

definition Distance :: "string \<Rightarrow> string \<Rightarrow> error + real" where
  "Distance geohash1 geohash2 =
     (case Decode geohash1 of
        Inl err \<Rightarrow> Inl err
      | Inr (lat1, lon1) \<Rightarrow>
         (case Decode geohash2 of
            Inl err \<Rightarrow> Inl err
          | Inr (lat2, lon2) \<Rightarrow> Inr (haversineDistance lat1 lon1 lat2 lon2)))"

subsection \<open>\<^verbatim>\<open>PrecisionForRadius\<close>\<close>




section \<open>The reference algorithm of the specification\<close>

text \<open>
  The encoder as the specification words it: keep the two ranges, produce
  \<open>precision * 5\<close> bits that alternate between longitude and latitude, longitude first;
  a bit is 1, and the lower bound of the active range moves to the midpoint, exactly when the
  coordinate is strictly greater than the midpoint; otherwise the bit is 0 and the upper
  bound moves to the midpoint.
\<close>

fun ref_bits :: "nat \<Rightarrow> bool \<Rightarrow> real \<Rightarrow> real \<Rightarrow> real \<times> real \<Rightarrow> real \<times> real \<Rightarrow> bool list" where
  "ref_bits 0 lonActive lat lon latR lonR = []"
| "ref_bits (Suc n) lonActive lat lon latR lonR =
     (if lonActive then
        (let mid = (fst lonR + snd lonR) / 2 in
         if lon > mid then True # ref_bits n False lat lon latR (mid, snd lonR)
         else False # ref_bits n False lat lon latR (fst lonR, mid))
      else
        (let mid = (fst latR + snd latR) / 2 in
         if lat > mid then True # ref_bits n True lat lon (mid, snd latR) lonR
         else False # ref_bits n True lat lon (fst latR, mid) lonR))"

text \<open>Consecutive groups of five bits.\<close>

fun chunks5 :: "'a list \<Rightarrow> 'a list list" where
  "chunks5 (b0 # b1 # b2 # b3 # b4 # rest) = [b0, b1, b2, b3, b4] # chunks5 rest"
| "chunks5 _ = []"

text \<open>The value of a group, most significant bit first.\<close>

definition bits_value :: "bool list \<Rightarrow> nat" where
  "bits_value bs = foldl (\<lambda>v b. 2 * v + (if b then 1 else 0)) 0 bs"

text \<open>One character of the alphabet per group.\<close>

definition ref_encode :: "real \<Rightarrow> real \<Rightarrow> nat \<Rightarrow> string" where
  "ref_encode lat lon precision =
     map (\<lambda>chunk. base32 ! bits_value chunk)
       (chunks5 (ref_bits (precision * 5) True lat lon (- 90, 90) (- 180, 180)))"

section \<open>Notions used by the properties\<close>

text \<open>A valid cell string: not empty, every byte in the alphabet.\<close>

definition valid_cell :: "string \<Rightarrow> bool" where
  "valid_cell s = (s \<noteq> [] \<and> (\<forall>c \<in> set s. c \<in> set base32))"

text \<open>The extent of a range.\<close>

definition width :: "real \<times> real \<Rightarrow> real" where
  "width r = snd r - fst r"

text \<open>The invariant of the bit walk of the decoder after \<open>k\<close> bits from the full extent.\<close>

definition walked :: "nat \<Rightarrow> ranges \<Rightarrow> bool" where
  "walked k s =
     (even' s = (k mod 2 = 0)
      \<and> width (lonRange s) = 360 / 2 ^ ((k + 1) div 2)
      \<and> width (latRange s) = 180 / 2 ^ (k div 2))"

text \<open>The bit that one pass through the inner loop of \<^verbatim>\<open>Encode\<close> decides.\<close>

definition enc_bit :: "real \<Rightarrow> real \<Rightarrow> enc_state \<Rightarrow> bool" where
  "enc_bit lat lon s =
     (if even' s then lon > (fst (lonRange s) + snd (lonRange s)) / 2
      else lat > (fst (latRange s) + snd (latRange s)) / 2)"

text \<open>The value of \<^verbatim>\<open>ch\<close> after setting, from bit position \<open>4 - b\<close> downwards, the given bits.\<close>

fun or_bits :: "int \<Rightarrow> int \<Rightarrow> bool list \<Rightarrow> int" where
  "or_bits c b [] = c"
| "or_bits c b (x # xs) = or_bits (if x then c OR push_bit (nat (4 - b)) 1 else c) (b + 1) xs"

text \<open>
  The eight calls of \<^verbatim>\<open>Encode\<close> that \<^verbatim>\<open>Neighbors\<close> makes, in the order of the source
  (N, S, E, W, NE, NW, SE, SW), and what a call contributes to the result.
\<close>

definition attempts :: "real \<Rightarrow> real \<Rightarrow> real \<Rightarrow> real \<Rightarrow> int \<Rightarrow> (error + string) list" where
  "attempts lat lon latStep lonStep precision =
     [Encode (lat + latStep) lon precision,
      Encode (lat - latStep) lon precision,
      Encode lat (lon + lonStep) precision,
      Encode lat (lon - lonStep) precision,
      Encode (lat + latStep) (lon + lonStep) precision,
      Encode (lat + latStep) (lon - lonStep) precision,
      Encode (lat - latStep) (lon + lonStep) precision,
      Encode (lat - latStep) (lon - lonStep) precision]"

definition ok_list :: "error + string \<Rightarrow> string list" where
  "ok_list r = (case r of Inl err \<Rightarrow> [] | Inr n \<Rightarrow> [n])"

text \<open>
  The bit walk of the decoder over a string of bytes of the alphabet: what the loop of
  \<^verbatim>\<open>Decode\<close> leaves in the ranges when no byte is rejected.
\<close>

fun walk_cell :: "string \<Rightarrow> ranges \<Rightarrow> ranges" where
  "walk_cell [] s = s"
| "walk_cell (c # cs) s = walk_cell cs (dec_bits (indexInBase32 c) 4 s)"

text \<open>
  Polynomials that enclose the sine of a non-negative angle: its Taylor polynomial of
  degree 5, minus and plus the bound \<open>x\<^sup>7 / 7!\<close> of the remainder. They bound the value of
  \<^verbatim>\<open>haversineDistance\<close> at given points.
\<close>

definition sin_lo :: "real \<Rightarrow> real" where
  "sin_lo x = x - x ^ 3 / 6 + x ^ 5 / 120 - x ^ 7 / 5040"

definition sin_hi :: "real \<Rightarrow> real" where
  "sin_hi x = x - x ^ 3 / 6 + x ^ 5 / 120 + x ^ 7 / 5040"

section \<open>Lemmas\<close>

lemma base32_ascii: "c \<in> set base32 \<Longrightarrow> (of_char c :: nat) < 128"
  by (auto simp: base32_def)

lemma runes_ascii: "\<forall>c \<in> set s. (of_char c :: nat) < 128 \<Longrightarrow> runes s = map of_char s"
  by (induction s) (simp_all add: Let_def)

lemma byte_of_rune_of_char: "byte_of_rune (of_char c) = c"
  by (simp add: byte_of_rune_def)

lemma indexInBase32_loop_miss:
  "c \<notin> set (drop i base32) \<Longrightarrow> indexInBase32_loop i c = - 1"
proof (induction i c rule: indexInBase32_loop.induct)
  case (1 i c)
  show ?case
  proof (cases "i < length base32")
    case True
    then have d: "drop i base32 = base32 ! i # drop (Suc i) base32"
      by (simp add: Cons_nth_drop_Suc)
    with "1.prems" have ne: "base32 ! i \<noteq> c" and rest: "c \<notin> set (drop (i + 1) base32)"
      by auto
    from "1.IH" [OF True ne rest] True ne show ?thesis
      by (simp add: indexInBase32_loop.simps [of i c])
  next
    case False
    then show ?thesis by (simp add: indexInBase32_loop.simps [of i c])
  qed
qed

lemma indexInBase32_loop_hit:
  "c \<in> set (drop i base32) \<Longrightarrow>
     int i \<le> indexInBase32_loop i c \<and> indexInBase32_loop i c < int (length base32)
     \<and> base32 ! nat (indexInBase32_loop i c) = c"
proof (induction i c rule: indexInBase32_loop.induct)
  case (1 i c)
  from "1.prems" have lt: "i < length base32"
    by (cases "i < length base32") auto
  then have d: "drop i base32 = base32 ! i # drop (Suc i) base32"
    by (simp add: Cons_nth_drop_Suc)
  show ?case
  proof (cases "base32 ! i = c")
    case True
    with lt show ?thesis by (simp add: indexInBase32_loop.simps [of i c])
  next
    case False
    with d "1.prems" have "c \<in> set (drop (i + 1) base32)" by auto
    from "1.IH" [OF lt False this] lt False show ?thesis
      by (simp add: indexInBase32_loop.simps [of i c])
  qed
qed

lemma indexInBase32_valid:
  "c \<in> set base32 \<Longrightarrow>
     0 \<le> indexInBase32 c \<and> indexInBase32 c < 32 \<and> base32 ! nat (indexInBase32 c) = c"
  using indexInBase32_loop_hit [of c 0] by (simp add: indexInBase32_def base32_def)

lemma indexInBase32_invalid: "c \<notin> set base32 \<Longrightarrow> indexInBase32 c = - 1"
  using indexInBase32_loop_miss [of c 0] by (simp add: indexInBase32_def)

lemma indexInBase32_eq_minus1_iff: "indexInBase32 c = - 1 \<longleftrightarrow> c \<notin> set base32"
  using indexInBase32_valid [of c] indexInBase32_invalid [of c] by auto

lemma dec_bits_unfold:
  "dec_bits idx 4 s =
     dec_step idx 0 (dec_step idx 1 (dec_step idx 2 (dec_step idx 3 (dec_step idx 4 s))))"
  by (simp add: dec_bits.simps [of idx 4] dec_bits.simps [of idx 3] dec_bits.simps [of idx 2]
      dec_bits.simps [of idx 1] dec_bits.simps [of idx 0] dec_bits.simps [of idx "- 1"])

lemma bbox_step_eq: "bbox_step = dec_step"
  by (intro ext) (simp add: bbox_step_def dec_step_def)

lemma bbox_bits_eq: "bbox_bits idx i s = dec_bits idx i s"
proof (induction idx i s rule: dec_bits.induct)
  case (1 idx i s)
  then show ?case
    by (simp add: bbox_bits.simps [of idx i s] dec_bits.simps [of idx i s] bbox_step_eq)
qed

lemma bbox_chars_eq: "bbox_chars cs s = dec_chars cs s"
  by (induction cs arbitrary: s) (simp_all add: bbox_bits_eq Let_def)

lemma walked_init: "walked 0 dec_init"
  by (simp add: walked_def dec_init_def width_def)

lemma dec_step_lon:
  "even' s \<Longrightarrow>
     \<not> even' (dec_step idx i s) \<and> latRange (dec_step idx i s) = latRange s
     \<and> width (lonRange (dec_step idx i s)) = width (lonRange s) / 2"
  by (simp add: dec_step_def Let_def width_def field_simps)

lemma dec_step_lat:
  "\<not> even' s \<Longrightarrow>
     even' (dec_step idx i s) \<and> lonRange (dec_step idx i s) = lonRange s
     \<and> width (latRange (dec_step idx i s)) = width (latRange s) / 2"
  by (simp add: dec_step_def Let_def width_def field_simps)

lemma walked_step:
  assumes "walked k s"
  shows "walked (Suc k) (dec_step idx i s)"
proof (cases "k mod 2 = 0")
  case True
  then have a: "(Suc k + 1) div 2 = Suc ((k + 1) div 2)" and b: "Suc k div 2 = k div 2"
    and c: "Suc k mod 2 \<noteq> 0"
    by presburger+
  from assms True have e: "even' s" and lo: "width (lonRange s) = 360 / 2 ^ ((k + 1) div 2)"
    and la: "width (latRange s) = 180 / 2 ^ (k div 2)"
    by (simp_all add: walked_def)
  from dec_step_lon [OF e, of idx i] lo la c show ?thesis
    unfolding walked_def a b by simp
next
  case False
  then have a: "(Suc k + 1) div 2 = (k + 1) div 2" and b: "Suc k div 2 = Suc (k div 2)"
    and c: "Suc k mod 2 = 0"
    by presburger+
  from assms False have e: "\<not> even' s" and lo: "width (lonRange s) = 360 / 2 ^ ((k + 1) div 2)"
    and la: "width (latRange s) = 180 / 2 ^ (k div 2)"
    by (simp_all add: walked_def)
  from dec_step_lat [OF e, of idx i] lo la c show ?thesis
    unfolding walked_def a b by simp
qed

lemma walked_dec_bits: "walked k s \<Longrightarrow> walked (k + 5) (dec_bits idx 4 s)"
  unfolding dec_bits_unfold
  using walked_step [of "k+4" _ idx 0] walked_step [of "k+3" _ idx 1] walked_step [of "k+2" _ idx 2]
    walked_step [of "k+1" _ idx 3] walked_step [of k s idx 4]
  by (simp add: numeral_eq_Suc)

lemma dec_chars_valid:
  "\<forall>c \<in> set cs. c \<in> set base32 \<Longrightarrow> walked k s \<Longrightarrow>
     \<exists>s'. dec_chars (map of_char cs) s = Inr s' \<and> walked (k + 5 * length cs) s'"
proof (induction cs arbitrary: k s)
  case Nil
  then show ?case by simp
next
  case (Cons c cs)
  from Cons.prems have c: "c \<in> set base32" and cs: "\<forall>c \<in> set cs. c \<in> set base32"
    by simp_all
  from c have ne: "indexInBase32 c \<noteq> - 1"
    by (simp add: indexInBase32_eq_minus1_iff)
  from Cons.IH [OF cs walked_dec_bits [OF Cons.prems(2)], of "indexInBase32 c"]
  obtain s' where "dec_chars (map of_char cs) (dec_bits (indexInBase32 c) 4 s) = Inr s'"
    and "walked (k + 5 + 5 * length cs) s'"
    by blast
  with ne show ?case
    by (simp add: byte_of_rune_of_char Let_def add.assoc)
qed

lemma walk_valid:
  assumes "valid_cell g"
  shows "\<exists>s. dec_chars (runes g) dec_init = Inr s \<and> walked (5 * length g) s"
proof -
  from assms have al: "\<forall>c \<in> set g. c \<in> set base32"
    by (simp add: valid_cell_def)
  then have "runes g = map of_char g"
    by (intro runes_ascii) (auto dest: base32_ascii)
  with dec_chars_valid [OF al walked_init] show ?thesis by simp
qed

lemma Decode_valid:
  assumes "valid_cell g"
  shows "\<exists>s. walked (5 * length g) s
     \<and> Decode g = Inr ((fst (latRange s) + snd (latRange s)) / 2,
                        (fst (lonRange s) + snd (lonRange s)) / 2)
     \<and> BoundingBox g = Inr (fst (latRange s), snd (latRange s),
                             fst (lonRange s), snd (lonRange s))"
proof -
  from walk_valid [OF assms] obtain s
    where s: "dec_chars (runes g) dec_init = Inr s" and w: "walked (5 * length g) s"
    by blast
  from assms have "g \<noteq> []" by (simp add: valid_cell_def)
  with s w show ?thesis
    by (auto simp: Decode_def BoundingBox_def bbox_chars_eq)
qed

lemma walked_nonempty: "walked k s \<Longrightarrow> fst (latRange s) < snd (latRange s) \<and> fst (lonRange s) < snd (lonRange s)"
proof -
  assume w: "walked k s"
  then have "width (latRange s) > 0" "width (lonRange s) > 0"
    by (simp_all add: walked_def)
  then show ?thesis by (simp add: width_def)
qed

lemma BoundingBox_spans:
  assumes "valid_cell g"
  shows "\<exists>minLat maxLat minLon maxLon.
           BoundingBox g = Inr (minLat, maxLat, minLon, maxLon)
           \<and> maxLat - minLat = 180 / 2 ^ (5 * length g div 2)
           \<and> maxLon - minLon = 360 / 2 ^ ((5 * length g + 1) div 2)"
proof -
  from Decode_valid [OF assms] obtain s where w: "walked (5 * length g) s"
    and b: "BoundingBox g = Inr (fst (latRange s), snd (latRange s),
                             fst (lonRange s), snd (lonRange s))"
    by blast
  from w have "snd (latRange s) - fst (latRange s) = 180 / 2 ^ (5 * length g div 2)"
    and "snd (lonRange s) - fst (lonRange s) = 360 / 2 ^ ((5 * length g + 1) div 2)"
    by (simp_all add: walked_def width_def)
  with b show ?thesis by blast
qed

lemma Decode_in_BoundingBox:
  "valid_cell g \<Longrightarrow>
     (\<exists>lat lon minLat maxLat minLon maxLon.
        Decode g = Inr (lat, lon) \<and> BoundingBox g = Inr (minLat, maxLat, minLon, maxLon)
        \<and> minLat \<le> lat \<and> lat \<le> maxLat \<and> minLon \<le> lon \<and> lon \<le> maxLon)"
proof -
  assume v: "valid_cell g"
  from Decode_valid [OF v] obtain s where w: "walked (5 * length g) s"
    and d: "Decode g = Inr ((fst (latRange s) + snd (latRange s)) / 2,
                        (fst (lonRange s) + snd (lonRange s)) / 2)"
    and b: "BoundingBox g = Inr (fst (latRange s), snd (latRange s),
                             fst (lonRange s), snd (lonRange s))"
    by blast
  from walked_nonempty [OF w]
  have "fst (latRange s) \<le> (fst (latRange s) + snd (latRange s)) / 2"
    and "(fst (latRange s) + snd (latRange s)) / 2 \<le> snd (latRange s)"
    and "fst (lonRange s) \<le> (fst (lonRange s) + snd (lonRange s)) / 2"
    and "(fst (lonRange s) + snd (lonRange s)) / 2 \<le> snd (lonRange s)"
    by simp_all
  with d b show ?thesis by blast
qed

lemma enc_step_bits: "bits (enc_step lat lon s) = bits s + 1"
  by (simp add: enc_step_def Let_def)

lemma enc_step_ch:
  "ch (enc_step lat lon s) = (if enc_bit lat lon s then ch s OR push_bit (nat (4 - bits s)) 1 else ch s)"
  by (simp add: enc_step_def enc_bit_def Let_def)

lemma ref_bits_enc_step:
  "ref_bits (Suc n) (even' s) lat lon (latRange s) (lonRange s) =
     enc_bit lat lon s #
       ref_bits n (even' (enc_step lat lon s)) lat lon
         (latRange (enc_step lat lon s)) (lonRange (enc_step lat lon s))"
  by (simp add: enc_step_def enc_bit_def Let_def)

lemma enc_bits_ref:
  "0 \<le> bits s \<Longrightarrow> bits s + int k = 5 \<Longrightarrow>
     bits (enc_bits lat lon s) = 5
     \<and> (\<exists>bs. length bs = k
          \<and> ch (enc_bits lat lon s) = or_bits (ch s) (bits s) bs
          \<and> (\<forall>n. ref_bits (k + n) (even' s) lat lon (latRange s) (lonRange s) =
                 bs @ ref_bits n (even' (enc_bits lat lon s)) lat lon
                        (latRange (enc_bits lat lon s)) (lonRange (enc_bits lat lon s))))"
proof (induction k arbitrary: s)
  case 0
  then have "enc_bits lat lon s = s"
    by (simp add: enc_bits.simps [of lat lon s])
  with 0 show ?case by simp
next
  case (Suc k)
  let ?t = "enc_step lat lon s"
  from Suc.prems have lt: "bits s < 5" by simp
  then have unf: "enc_bits lat lon s = enc_bits lat lon ?t"
    by (simp add: enc_bits.simps [of lat lon s])
  from Suc.prems have "0 \<le> bits ?t" "bits ?t + int k = 5"
    by (simp_all add: enc_step_bits)
  from Suc.IH [OF this] obtain bs where b5: "bits (enc_bits lat lon ?t) = 5"
    and len: "length bs = k"
    and c: "ch (enc_bits lat lon ?t) = or_bits (ch ?t) (bits ?t) bs"
    and r: "\<And>n. ref_bits (k + n) (even' ?t) lat lon (latRange ?t) (lonRange ?t) =
                 bs @ ref_bits n (even' (enc_bits lat lon ?t)) lat lon
                        (latRange (enc_bits lat lon ?t)) (lonRange (enc_bits lat lon ?t))"
    by blast
  let ?bs = "enc_bit lat lon s # bs"
  have "length ?bs = Suc k" using len by simp
  moreover have "ch (enc_bits lat lon s) = or_bits (ch s) (bits s) ?bs"
    unfolding unf c by (simp add: enc_step_ch enc_step_bits)
  moreover have "\<forall>n. ref_bits (Suc k + n) (even' s) lat lon (latRange s) (lonRange s) =
                 ?bs @ ref_bits n (even' (enc_bits lat lon s)) lat lon
                        (latRange (enc_bits lat lon s)) (lonRange (enc_bits lat lon s))"
    unfolding unf using r ref_bits_enc_step [of "k + n" s lat lon for n] by simp
  ultimately show ?case
    unfolding unf using b5 by blast
qed

lemma or_bits_value:
  "length bs = 5 \<Longrightarrow> or_bits 0 0 bs = int (bits_value bs) \<and> bits_value bs < 32"
proof -
  assume "length bs = 5"
  then obtain a b c d e where bs: "bs = [a, b, c, d, e]"
    by (auto simp: length_Suc_conv numeral_eq_Suc)
  show ?thesis
    unfolding bs bits_value_def
    by (cases a; cases b; cases c; cases d; cases e) simp_all
qed

lemma chunks5_append:
  "length bs = 5 \<Longrightarrow> chunks5 (bs @ rest) = bs # chunks5 rest"
proof -
  assume "length bs = 5"
  then obtain a b c d e where bs: "bs = [a, b, c, d, e]"
    by (auto simp: length_Suc_conv numeral_eq_Suc)
  show ?thesis unfolding bs by simp
qed

lemma length_base32: "length base32 = 32"
  by (simp add: base32_def)

lemma take_Suc_update:
  "i < length xs \<Longrightarrow> take (Suc i) (xs[i := x]) = take i xs @ [x]"
  by (simp add: take_Suc_conv_app_nth)

lemma enc_chars_ref:
  "0 \<le> i \<Longrightarrow> i + int m = precision \<Longrightarrow> length g = nat precision \<Longrightarrow>
   bits s = 0 \<Longrightarrow> ch s = 0 \<Longrightarrow>
     enc_chars lat lon precision i s g =
       Inr (take (nat i) g @
            map (\<lambda>chunk. base32 ! bits_value chunk)
              (chunks5 (ref_bits (m * 5) (even' s) lat lon (latRange s) (lonRange s))))"
proof (induction m arbitrary: i s g)
  case 0
  then have "\<not> i < precision" and "take (nat i) g = g" by simp_all
  then show ?case
    by (simp add: enc_chars.simps [of lat lon precision i s g])
next
  case (Suc m)
  let ?s' = "enc_bits lat lon s"
  let ?s'' = "?s'\<lparr>bits := 0, ch := 0\<rparr>"
  from Suc.prems have lt: "i < precision" and ilen: "nat i < length g"
    and il: "i < int (length g)" by simp_all
  from enc_bits_ref [of s 5 lat lon] Suc.prems obtain bs where len: "length bs = 5"
    and c: "ch ?s' = or_bits 0 0 bs"
    and r: "\<And>n. ref_bits (5 + n) (even' s) lat lon (latRange s) (lonRange s) =
                 bs @ ref_bits n (even' ?s') lat lon (latRange ?s') (lonRange ?s')"
    by auto
  from or_bits_value [OF len] c have cv: "ch ?s' = int (bits_value bs)" and c32: "bits_value bs < 32"
    by simp_all
  let ?g' = "g[nat i := base32 ! nat (ch ?s')]"
  have unf: "enc_chars lat lon precision i s g = enc_chars lat lon precision (i + 1) ?s'' ?g'"
    using lt il Suc.prems(1) cv c32
    by (simp add: enc_chars.simps [of lat lon precision i s g] Let_def length_base32)
  have ih: "enc_chars lat lon precision (i + 1) ?s'' ?g' =
       Inr (take (nat (i + 1)) ?g' @
            map (\<lambda>chunk. base32 ! bits_value chunk)
              (chunks5 (ref_bits (m * 5) (even' ?s'') lat lon (latRange ?s'') (lonRange ?s''))))"
    using Suc.prems by (intro Suc.IH) simp_all
  have tk: "take (nat (i + 1)) ?g' = take (nat i) g @ [base32 ! bits_value bs]"
    using take_Suc_update [OF ilen] Suc.prems(1) cv by (simp add: nat_add_distrib)
  have rb: "ref_bits (Suc m * 5) (even' s) lat lon (latRange s) (lonRange s) =
              bs @ ref_bits (m * 5) (even' ?s') lat lon (latRange ?s') (lonRange ?s')"
    using r [of "m * 5"] by (simp add: add.commute)
  show ?case
    unfolding unf ih tk rb chunks5_append [OF len] by simp
qed

lemma length_ref_bits: "length (ref_bits n a lat lon latR lonR) = n"
  by (induction n arbitrary: a latR lonR) (simp_all add: Let_def)

lemma length_chunks5: "length xs = n * 5 \<Longrightarrow> length (chunks5 xs) = n"
proof (induction n arbitrary: xs)
  case 0
  then show ?case by simp
next
  case (Suc n)
  then have "length xs = Suc (Suc (Suc (Suc (Suc (n * 5)))))" by simp
  then obtain a b c d e rest where xs: "xs = a # b # c # d # e # rest" and "length rest = n * 5"
    by (auto simp: length_Suc_conv)
  with Suc.IH show ?case by simp
qed

lemma chunks5_len: "c \<in> set (chunks5 xs) \<Longrightarrow> length c = 5"
  by (induction xs rule: chunks5.induct) auto

lemma length_ref_encode: "length (ref_encode lat lon n) = n"
  by (simp add: ref_encode_def length_chunks5 length_ref_bits)

lemma base32_nth_mem: "k < 32 \<Longrightarrow> base32 ! k \<in> set base32"
  by (rule nth_mem) (simp add: length_base32)

lemma ref_encode_alphabet: "c \<in> set (ref_encode lat lon n) \<Longrightarrow> c \<in> set base32"
proof -
  assume "c \<in> set (ref_encode lat lon n)"
  then obtain chunk where m: "chunk \<in> set (chunks5 (ref_bits (n * 5) True lat lon (- 90, 90) (- 180, 180)))"
    and c: "c = base32 ! bits_value chunk"
    by (auto simp: ref_encode_def)
  from m have "length chunk = 5" by (rule chunks5_len)
  from or_bits_value [OF this] have "bits_value chunk < 32" by simp
  then show ?thesis unfolding c by (rule base32_nth_mem)
qed

lemma Encode_ref:
  assumes "- 90 \<le> lat" "lat \<le> 90" "- 180 \<le> lon" "lon \<le> 180" "1 \<le> precision" "precision \<le> 12"
  shows "Encode lat lon precision = Inr (ref_encode lat lon (nat precision))"
proof -
  have "enc_chars lat lon precision 0 enc_init (replicate (nat precision) (CHR 0x00)) =
          Inr (take (nat 0) (replicate (nat precision) (CHR 0x00)) @
            map (\<lambda>chunk. base32 ! bits_value chunk)
              (chunks5 (ref_bits (nat precision * 5) (even' enc_init) lat lon
                 (latRange enc_init) (lonRange enc_init))))"
    using assms by (intro enc_chars_ref) (simp_all add: enc_init_def)
  with assms show ?thesis
    by (simp add: Encode_def ref_encode_def enc_init_def)
qed

lemma append_if_ok_eq: "append_if_ok ns r = ns @ ok_list r"
  by (simp add: append_if_ok_def ok_list_def split: sum.splits)

lemma Encode_Inr_valid:
  assumes "Encode lat lon precision = Inr g"
  shows "- 90 \<le> lat \<and> lat \<le> 90 \<and> - 180 \<le> lon \<and> lon \<le> 180 \<and> 1 \<le> precision \<and> precision \<le> 12"
  using assms by (simp add: Encode_def split: if_splits)

lemma Encode_Inr_cell:
  assumes "Encode lat lon precision = Inr g"
  shows "length g = nat precision \<and> valid_cell g"
proof -
  from Encode_Inr_valid [OF assms] Encode_ref [of lat lon precision] assms
  have g: "g = ref_encode lat lon (nat precision)" and p: "1 \<le> precision" by simp_all
  then have "length g = nat precision" by (simp add: length_ref_encode)
  moreover from this p have "g \<noteq> []" by auto
  moreover have "\<forall>c \<in> set g. c \<in> set base32"
    unfolding g by (blast intro: ref_encode_alphabet)
  ultimately show ?thesis by (simp add: valid_cell_def)
qed

lemma ok_list_Encode:
  "length (ok_list (Encode lat lon precision)) \<le> 1
   \<and> (\<forall>n \<in> set (ok_list (Encode lat lon precision)). length n = nat precision)"
  by (cases "Encode lat lon precision") (auto simp: ok_list_def dest: Encode_Inr_cell)

lemma Neighbors_unfold:
  assumes "Decode g = Inr (lat, lon)" "BoundingBox g = Inr (minLat, maxLat, minLon, maxLon)"
    "g \<noteq> []"
  shows "Neighbors g =
     Inr (concat (map ok_list
            (attempts lat lon (maxLat - minLat) (maxLon - minLon) (int (length g)))))"
  using assms by (simp add: Neighbors_def Let_def append_if_ok_eq attempts_def)

lemma attempts_results:
  "length (concat (map ok_list (attempts lat lon latStep lonStep precision))) \<le> 8
   \<and> (\<forall>n \<in> set (concat (map ok_list (attempts lat lon latStep lonStep precision))).
         length n = nat precision)"
proof -
  have len: "length (concat (map ok_list rs)) \<le> length rs"
    if "\<forall>r \<in> set rs. length (ok_list r) \<le> 1" for rs :: "(error + string) list"
    using that by (induction rs) auto
  have "\<forall>r \<in> set (attempts lat lon latStep lonStep precision).
          length (ok_list r) \<le> 1 \<and> (\<forall>n \<in> set (ok_list r). length n = nat precision)"
    using ok_list_Encode by (simp add: attempts_def)
  moreover have "length (attempts lat lon latStep lonStep precision) = 8"
    by (simp add: attempts_def)
  ultimately show ?thesis using len [of "attempts lat lon latStep lonStep precision"] by auto
qed

lemma Encode_big_precision: "12 < precision \<Longrightarrow> ok_list (Encode lat lon precision) = []"
  by (simp add: Encode_def ok_list_def)

lemma attempts_big_precision:
  "12 < precision \<Longrightarrow> concat (map ok_list (attempts lat lon latStep lonStep precision)) = []"
  by (simp add: attempts_def Encode_big_precision)

text \<open>Evaluating the codec on concrete inputs.\<close>

lemma dec_chars_walk_cell:
  "\<forall>c \<in> set g. c \<in> set base32 \<Longrightarrow> dec_chars (map of_char g) s = Inr (walk_cell g s)"
proof (induction g arbitrary: s)
  case Nil
  then show ?case by simp
next
  case (Cons c g)
  then show ?case
    by (simp add: byte_of_rune_of_char Let_def indexInBase32_eq_minus1_iff)
qed

lemma Decode_walk_cell:
  assumes "valid_cell g"
  shows "Decode g =
     Inr ((fst (latRange (walk_cell g dec_init)) + snd (latRange (walk_cell g dec_init))) / 2,
          (fst (lonRange (walk_cell g dec_init)) + snd (lonRange (walk_cell g dec_init))) / 2)"
proof -
  from assms have al: "\<forall>c \<in> set g. c \<in> set base32" and ne: "g \<noteq> []"
    by (simp_all add: valid_cell_def)
  then have "runes g = map of_char g"
    by (intro runes_ascii) (auto dest: base32_ascii)
  with dec_chars_walk_cell [OF al] ne show ?thesis
    by (simp add: Decode_def)
qed

lemma index_values:
  "indexInBase32 CHR ''u'' = 26" "indexInBase32 CHR ''2'' = 2" "indexInBase32 CHR ''8'' = 8"
  "indexInBase32 CHR ''1'' = 1" "indexInBase32 CHR ''z'' = 31" "indexInBase32 CHR ''d'' = 12"
  "indexInBase32 CHR ''9'' = 9" "indexInBase32 CHR ''3'' = 3" "indexInBase32 CHR ''b'' = 10"
  "indexInBase32 CHR ''g'' = 15"
  by code_simp+

lemma ref_bits_unfold:
  "0 < n \<Longrightarrow> ref_bits n a lat lon latR lonR =
     (if a then
        (if lon > (fst lonR + snd lonR) / 2
         then True # ref_bits (n - 1) False lat lon latR ((fst lonR + snd lonR) / 2, snd lonR)
         else False # ref_bits (n - 1) False lat lon latR (fst lonR, (fst lonR + snd lonR) / 2))
      else
        (if lat > (fst latR + snd latR) / 2
         then True # ref_bits (n - 1) True lat lon ((fst latR + snd latR) / 2, snd latR) lonR
         else False # ref_bits (n - 1) True lat lon (fst latR, (fst latR + snd latR) / 2) lonR))"
  by (cases n) (simp_all add: Let_def)

lemma ref_bits_munich:
  "ref_bits 40 True 48.1351 11.5820 (- 90, 90) (- 180, 180) =
     [True, True, False, True, False,  False, False, False, True, False,
      False, True, False, False, False,  False, False, False, False, True,
      True, True, True, True, True,  False, True, True, False, False,
      False, True, False, False, True,  True, True, True, True, True]"
  by (simp add: ref_bits_unfold)

lemma Encode_munich: "Encode 48.1351 11.5820 8 = Inr ''u281zd9z''"
proof -
  have "Encode 48.1351 11.5820 8 = Inr (ref_encode 48.1351 11.5820 (nat 8))"
    by (rule Encode_ref) simp_all
  also have "ref_encode 48.1351 11.5820 (nat 8) = ''u281zd9z''"
  proof -
    have e: "nat 8 * 5 = (40::nat)" by simp
    show ?thesis
      unfolding ref_encode_def e ref_bits_munich
      by (simp add: bits_value_def base32_def)
  qed
  finally show ?thesis .
qed

lemma Decode_munich: "Decode ''u281zd9z'' = Inr (25236675 / 524288, 3036195 / 262144)"
proof -
  have v: "valid_cell ''u281zd9z''" by (simp add: valid_cell_def base32_def)
  show ?thesis
    unfolding Decode_walk_cell [OF v]
    by (simp add: index_values dec_bits_unfold dec_step_def dec_init_def Let_def)
qed

lemma Decode_berlin: "Decode ''u33db3gz'' = Inr (27538515 / 524288, 3506355 / 262144)"
proof -
  have v: "valid_cell ''u33db3gz''" by (simp add: valid_cell_def base32_def)
  show ?thesis
    unfolding Decode_walk_cell [OF v]
    by (simp add: index_values dec_bits_unfold dec_step_def dec_init_def Let_def)
qed

lemma dec_chars_invalid:
  "\<exists>c \<in> set cs. c \<notin> set base32 \<Longrightarrow> dec_chars (map of_char cs) s = Inl ErrInvalidCharacter"
proof (induction cs arbitrary: s)
  case Nil
  then show ?case by simp
next
  case (Cons c cs)
  show ?case
  proof (cases "c \<in> set base32")
    case True
    with Cons.prems have "\<exists>c \<in> set cs. c \<notin> set base32" by simp
    from Cons.IH [OF this] True show ?thesis
      by (simp add: byte_of_rune_of_char Let_def indexInBase32_eq_minus1_iff)
  next
    case False
    then show ?thesis
      by (simp add: byte_of_rune_of_char Let_def indexInBase32_eq_minus1_iff)
  qed
qed

lemma Decode_empty: "Decode [] = Inl ErrEmptyGeohash"
  by (simp add: Decode_def)

lemma Decode_ascii_invalid:
  assumes "\<forall>c \<in> set g. (of_char c :: nat) < 128" "\<exists>c \<in> set g. c \<notin> set base32"
  shows "Decode g = Inl ErrInvalidCharacter"
proof -
  from assms(2) have "g \<noteq> []" by auto
  with runes_ascii [OF assms(1)] dec_chars_invalid [OF assms(2)] show ?thesis
    by (simp add: Decode_def)
qed

lemma runes_two_bytes: "runes [CHR 0xC4, CHR 0xB0] = [0x130]"
  by (simp add: Let_def inRange_def contBits_def)

lemma byte_of_rune_truncates: "byte_of_rune 0x130 = CHR ''0''"
  by code_simp

lemma index_zero: "indexInBase32 CHR ''0'' = 0"
  by code_simp

text \<open>\<^verbatim>\<open>Distance\<close> returns the first decode error, and the haversine distance otherwise.\<close>

lemma Distance_error_iff:
  "Distance a b = Inl e \<longleftrightarrow>
     Decode a = Inl e \<or> ((\<exists>p. Decode a = Inr p) \<and> Decode b = Inl e)"
  by (auto simp: Distance_def split: sum.splits prod.splits)

lemma Distance_ok:
  "Decode a = Inr (lat1, lon1) \<Longrightarrow> Decode b = Inr (lat2, lon2) \<Longrightarrow>
     Distance a b = Inr (haversineDistance lat1 lon1 lat2 lon2)"
  by (simp add: Distance_def)

lemma index_values_claimed:
  "indexInBase32 CHR ''0'' = 0" "indexInBase32 CHR ''q'' = 22" "indexInBase32 CHR ''j'' = 17"
  "indexInBase32 CHR ''5'' = 5" "indexInBase32 CHR ''v'' = 27" "indexInBase32 CHR ''k'' = 18"
  by code_simp+

lemma Decode_claimed: "Decode ''u0qj5v2k'' = Inr (24806565 / 524288, 2255175 / 262144)"
proof -
  have v: "valid_cell ''u0qj5v2k''" by (simp add: valid_cell_def base32_def)
  show ?thesis
    unfolding Decode_walk_cell [OF v]
    by (simp add: index_values index_values_claimed dec_bits_unfold dec_step_def dec_init_def Let_def)
qed

text \<open>Enclosures of \<open>sin\<close>, of \<open>\<pi>\<close> and of the haversine distance between cell centres.\<close>

lemma sin_taylor_sum:
  "(\<Sum>m<7. sin_coeff m * x ^ m) = x - x ^ 3 / 6 + x ^ 5 / 120" for x :: real
  by (simp add: sin_coeff_def lessThan_nat_numeral fact_numeral)

lemma sin_enclosure:
  fixes x :: real
  assumes "0 \<le> x"
  shows "sin_lo x \<le> sin x \<and> sin x \<le> sin_hi x"
proof -
  have a: "\<bar>sin x - (\<Sum>m<7. sin_coeff m * x ^ m)\<bar> \<le> inverse (fact 7) * \<bar>x\<bar> ^ 7"
    by (rule Maclaurin_sin_bound [of x 7])
  have b: "inverse (fact 7) * \<bar>x\<bar> ^ 7 = x ^ 7 / 5040"
    using assms by (simp add: fact_numeral)
  have "\<bar>sin x - (x - x ^ 3 / 6 + x ^ 5 / 120)\<bar> \<le> x ^ 7 / 5040"
    using a unfolding b sin_taylor_sum .
  then show ?thesis
    unfolding sin_lo_def sin_hi_def by linarith
qed

lemma one_le_pi_half: "1 \<le> pi / 2"
  using pi_ge_two by simp

lemma sin_between:
  assumes "0 \<le> l" "l \<le> x" "x \<le> u" "u \<le> 1"
  shows "sin_lo l \<le> sin x \<and> sin x \<le> sin_hi u"
proof -
  from assms one_le_pi_half have r: "- (pi / 2) \<le> l" "l \<le> pi / 2" "- (pi / 2) \<le> x" "x \<le> pi / 2"
    "- (pi / 2) \<le> u" "u \<le> pi / 2"
    by linarith+
  from assms(2) have "sin l \<le> sin x" by (rule iffD2 [OF sin_mono_le_eq [OF r(1-4)]])
  moreover from assms(3) have "sin x \<le> sin u" by (rule iffD2 [OF sin_mono_le_eq [OF r(3-6)]])
  moreover from assms have "0 \<le> u" by linarith
  ultimately show ?thesis
    using sin_enclosure [OF assms(1)] sin_enclosure [of u] by linarith
qed

lemma pi_lower: "3141 / 1000 < pi"
proof -
  have h: "sin (pi / 6) = 1 / 2" by (rule sin_30)
  have r: "- (pi / 2) \<le> pi / 6" "pi / 6 \<le> pi / 2" by simp_all
  have c1: "(0::real) \<le> 5235 / 10000" by simp
  have b1: "- (pi / 2) \<le> 5235 / 10000" "5235 / 10000 \<le> pi / 2"
    using one_le_pi_half by linarith+
  have "sin_hi (5235 / 10000) < 1 / 2" by (simp add: sin_hi_def power_divide)
  with sin_enclosure [OF c1] h have "sin (5235 / 10000) < sin (pi / 6)" by linarith
  then have "5235 / 10000 < pi / 6"
    by (rule iffD1 [OF sin_mono_less_eq [OF b1 r]])
  then show ?thesis by linarith
qed

lemma pi_upper: "pi < 31422 / 10000"
proof -
  have h: "sin (pi / 6) = 1 / 2" by (rule sin_30)
  have r: "- (pi / 2) \<le> pi / 6" "pi / 6 \<le> pi / 2" by simp_all
  have c2: "(0::real) \<le> 5237 / 10000" by simp
  have b2: "- (pi / 2) \<le> 5237 / 10000" "5237 / 10000 \<le> pi / 2"
    using one_le_pi_half by linarith+
  have "1 / 2 < sin_lo (5237 / 10000)" by (simp add: sin_lo_def power_divide)
  with sin_enclosure [OF c2] h have "sin (pi / 6) < sin (5237 / 10000)" by linarith
  then have "pi / 6 < 5237 / 10000"
    by (rule iffD1 [OF sin_mono_less_eq [OF r b2]])
  then show ?thesis by linarith
qed

lemma sin_bracket:
  assumes "0 \<le> l" "l \<le> k * pi" "k * pi \<le> u" "u \<le> 1" "s \<le> sin_lo l" "sin_hi u \<le> t"
  shows "s \<le> sin (k * pi) \<and> sin (k * pi) \<le> t"
  using sin_between [OF assms(1-4)] assms(5,6) by linarith

lemma sin_dLat_munich:
  "3829 / 100000 \<le> sin (3197 / 262144 * pi) \<and> sin (3197 / 262144 * pi) \<le> 3833 / 100000"
proof (rule sin_bracket [of "383 / 10000" _ "3833 / 100000"])
  show "383 / 10000 \<le> 3197 / 262144 * pi" using pi_lower by linarith
  show "3197 / 262144 * pi \<le> 3833 / 100000" using pi_upper by linarith
  show "3829 / 100000 \<le> sin_lo (383 / 10000)" by (simp add: sin_lo_def power_divide)
  show "sin_hi (3833 / 100000) \<le> 3833 / 100000" by (simp add: sin_hi_def power_divide)
qed simp_all

lemma sin_dLon_munich:
  "15639 / 1000000 \<le> sin (653 / 131072 * pi) \<and> sin (653 / 131072 * pi) \<le> 1566 / 100000"
proof (rule sin_bracket [of "1564 / 100000" _ "1566 / 100000"])
  show "1564 / 100000 \<le> 653 / 131072 * pi" using pi_lower by linarith
  show "653 / 131072 * pi \<le> 1566 / 100000" using pi_upper by linarith
  show "15639 / 1000000 \<le> sin_lo (1564 / 100000)" by (simp add: sin_lo_def power_divide)
  show "sin_hi (1566 / 100000) \<le> 1566 / 100000" by (simp add: sin_hi_def power_divide)
qed simp_all

lemma sin_half_lat_munich:
  "40766 / 100000 \<le> sin (560815 / 4194304 * pi) \<and> sin (560815 / 4194304 * pi) \<le> 40795 / 100000"
proof (rule sin_bracket [of "4199 / 10000" _ "4202 / 10000"])
  show "4199 / 10000 \<le> 560815 / 4194304 * pi" using pi_lower by linarith
  show "560815 / 4194304 * pi \<le> 4202 / 10000" using pi_upper by linarith
  show "40766 / 100000 \<le> sin_lo (4199 / 10000)" by (simp add: sin_lo_def power_divide)
  show "sin_hi (4202 / 10000) \<le> 40795 / 100000" by (simp add: sin_hi_def power_divide)
qed simp_all

lemma sin_half_lat_berlin:
  "44233 / 100000 \<le> sin (611967 / 4194304 * pi) \<and> sin (611967 / 4194304 * pi) \<le> 44261 / 100000"
proof (rule sin_bracket [of "4582 / 10000" _ "4585 / 10000"])
  show "4582 / 10000 \<le> 611967 / 4194304 * pi" using pi_lower by linarith
  show "611967 / 4194304 * pi \<le> 4585 / 10000" using pi_upper by linarith
  show "44233 / 100000 \<le> sin_lo (4582 / 10000)" by (simp add: sin_lo_def power_divide)
  show "sin_hi (4585 / 10000) \<le> 44261 / 100000" by (simp add: sin_hi_def power_divide)
qed simp_all

lemma cos_from_half:
  fixes l u y :: real
  assumes "0 \<le> l" "l \<le> sin y" "sin y \<le> u"
  shows "1 - 2 * (u * u) \<le> cos (2 * y) \<and> cos (2 * y) \<le> 1 - 2 * (l * l)"
proof -
  have "l * l \<le> sin y * sin y" by (rule mult_mono) (use assms in linarith)+
  moreover have "sin y * sin y \<le> u * u" by (rule mult_mono) (use assms in linarith)+
  ultimately show ?thesis by (simp add: cos_double_sin power2_eq_square)
qed

lemma prod_bounds:
  fixes a b :: real
  assumes "0 \<le> al" "al \<le> a" "a \<le> au" "0 \<le> bl" "bl \<le> b" "b \<le> bu"
  shows "al * bl \<le> a * b \<and> a * b \<le> au * bu"
proof
  show "al * bl \<le> a * b" by (rule mult_mono) (use assms in linarith)+
  show "a * b \<le> au * bu" by (rule mult_mono) (use assms in linarith)+
qed

lemma Atan2_sqrt:
  assumes "0 \<le> a" "a < 1"
  shows "sin (Atan2 (sqrt a) (sqrt (1 - a))) = sqrt a
         \<and> 0 \<le> Atan2 (sqrt a) (sqrt (1 - a)) \<and> Atan2 (sqrt a) (sqrt (1 - a)) < pi / 2"
proof -
  define t where "t = sqrt a / sqrt (1 - a)"
  from assms have p: "0 < sqrt (1 - a)" by simp
  then have e: "Atan2 (sqrt a) (sqrt (1 - a)) = arctan t"
    by (simp add: Atan2_def t_def)
  from assms have q: "(sqrt a)\<^sup>2 = a" "(sqrt (1 - a))\<^sup>2 = 1 - a" by simp_all
  have "1 + t\<^sup>2 = 1 + a / (1 - a)"
    by (simp add: t_def power_divide q)
  also from assms have "\<dots> = 1 / (1 - a)" by (simp add: field_simps)
  finally have "sqrt (1 + t\<^sup>2) = 1 / sqrt (1 - a)"
    by (simp add: real_sqrt_divide)
  then have "sin (arctan t) = sqrt a"
    using p by (simp add: sin_arctan t_def)
  moreover from assms p have "0 \<le> t" by (simp add: t_def)
  then have "0 \<le> arctan t" by simp
  moreover have "arctan t < pi / 2" by (rule arctan_ubound)
  ultimately show ?thesis by (simp add: e)
qed

lemma angle_bounds:
  fixes l u s x :: real
  assumes s: "sin x = s" and x: "0 \<le> x" "x < pi / 2"
    and l: "0 \<le> l" "l \<le> 1" "l \<le> s"
    and u: "0 \<le> u" "u \<le> 1" "s \<le> sin_lo u"
  shows "l \<le> x \<and> x \<le> u"
proof
  from l one_le_pi_half have rl: "- (pi / 2) \<le> l" "l \<le> pi / 2" by linarith+
  from u one_le_pi_half have ru: "- (pi / 2) \<le> u" "u \<le> pi / 2" by linarith+
  from x have rx: "- (pi / 2) \<le> x" "x \<le> pi / 2" by linarith+
  from l(1) have "sin l \<le> l" by (rule sin_x_le_x)
  with l(3) s have "sin l \<le> sin x" by linarith
  then show "l \<le> x" by (rule iffD1 [OF sin_mono_le_eq [OF rl rx]])
  from sin_enclosure [OF u(1)] u(3) s have "sin x \<le> sin u" by linarith
  then show "x \<le> u" by (rule iffD1 [OF sin_mono_le_eq [OF rx ru]])
qed

lemma haversine_munich_berlin:
  "494 \<le> haversineDistance (25236675 / 524288) (3036195 / 262144) (27538515 / 524288) (3506355 / 262144)
   \<and> haversineDistance (25236675 / 524288) (3036195 / 262144) (27538515 / 524288) (3506355 / 262144) \<le> 514"
proof -
  define s1 where "s1 = sin (3197 / 262144 * pi)"
  define s2 where "s2 = sin (653 / 131072 * pi)"
  define c1 where "c1 = cos (2 * (560815 / 4194304 * pi))"
  define c2 where "c2 = cos (2 * (611967 / 4194304 * pi))"
  define a where "a = s1 * s1 + s2 * s2 * c1 * c2"
  define \<theta> where "\<theta> = Atan2 (sqrt a) (sqrt (1 - a))"
  have d1: "degToRad (27538515 / 524288 - 25236675 / 524288) / 2 = 3197 / 262144 * pi"
    by (simp add: degToRad_def)
  have d2: "degToRad (3506355 / 262144 - 3036195 / 262144) / 2 = 653 / 131072 * pi"
    by (simp add: degToRad_def)
  have d3: "degToRad (25236675 / 524288) = 2 * (560815 / 4194304 * pi)"
    by (simp add: degToRad_def)
  have d4: "degToRad (27538515 / 524288) = 2 * (611967 / 4194304 * pi)"
    by (simp add: degToRad_def)
  have h: "haversineDistance (25236675 / 524288) (3036195 / 262144) (27538515 / 524288)
             (3506355 / 262144) = 6371 * (2 * \<theta>)"
    unfolding haversineDistance_def Let_def d1 d2 d3 d4 earthRadiusKm_def
      \<theta>_def a_def s1_def s2_def c1_def c2_def ..
  have b1: "3829 / 100000 \<le> s1" "s1 \<le> 3833 / 100000"
    using sin_dLat_munich by (simp_all add: s1_def)
  have b2: "15639 / 1000000 \<le> s2" "s2 \<le> 1566 / 100000"
    using sin_dLon_munich by (simp_all add: s2_def)
  have b3: "6671 / 10000 \<le> c1" "c1 \<le> 6677 / 10000"
    using cos_from_half [of "40766 / 100000" "560815 / 4194304 * pi" "40795 / 100000"] sin_half_lat_munich
    by (simp_all add: c1_def)
  have b4: "6081 / 10000 \<le> c2" "c2 \<le> 6087 / 10000"
    using cos_from_half [of "44233 / 100000" "611967 / 4194304 * pi" "44261 / 100000"] sin_half_lat_berlin
    by (simp_all add: c2_def)
  have p1: "1466 / 1000000 \<le> s1 * s1" "s1 * s1 \<le> 1470 / 1000000"
    using prod_bounds [of "3829 / 100000" s1 "3833 / 100000" "3829 / 100000" s1 "3833 / 100000"] b1
    by simp_all
  have p2: "2445 / 10000000 \<le> s2 * s2" "s2 * s2 \<le> 2453 / 10000000"
    using prod_bounds [of "15639 / 1000000" s2 "1566 / 100000" "15639 / 1000000" s2 "1566 / 100000"] b2
    by simp_all
  have p3: "1631 / 10000000 \<le> s2 * s2 * c1" "s2 * s2 * c1 \<le> 1638 / 10000000"
    using prod_bounds [of "2445 / 10000000" "s2 * s2" "2453 / 10000000" "6671 / 10000" c1 "6677 / 10000"]
      p2 b3
    by simp_all
  have p4: "991 / 10000000 \<le> s2 * s2 * c1 * c2" "s2 * s2 * c1 * c2 \<le> 998 / 10000000"
    using prod_bounds [of "1631 / 10000000" "s2 * s2 * c1" "1638 / 10000000" "6081 / 10000" c2 "6087 / 10000"]
      p3 b4
    by simp_all
  from p1 p4 have ab: "156 / 100000 \<le> a" "a \<le> 157 / 100000"
    unfolding a_def by linarith+
  then have a01: "0 \<le> a" "a < 1" by linarith+
  have sl: "39 / 1000 \<le> sqrt a"
    by (rule real_le_rsqrt) (use ab in \<open>simp add: power2_eq_square\<close>)
  have su: "sqrt a \<le> 397 / 10000"
    by (rule real_le_lsqrt) (use ab in \<open>simp_all add: power2_eq_square\<close>)
  have "(397 / 10000 :: real) \<le> sin_lo (4 / 100)"
    by (simp add: sin_lo_def power_divide)
  with su have su': "sqrt a \<le> sin_lo (4 / 100)" by linarith
  from Atan2_sqrt [OF a01] have t: "sin \<theta> = sqrt a" "0 \<le> \<theta>" "\<theta> < pi / 2"
    by (simp_all add: \<theta>_def)
  have "39 / 1000 \<le> \<theta> \<and> \<theta> \<le> 4 / 100"
    by (rule angle_bounds [OF t _ _ sl _ _ su']) simp_all
  then show ?thesis unfolding h by simp
qed

lemma sin_dLat_claimed:
  "4544 / 100000 \<le> sin (30355 / 2097152 * pi) \<and> sin (30355 / 2097152 * pi) \<le> 4548 / 100000"
proof (rule sin_bracket [of "4546 / 100000" _ "4549 / 100000"])
  show "4546 / 100000 \<le> 30355 / 2097152 * pi" using pi_lower by linarith
  show "30355 / 2097152 * pi \<le> 4549 / 100000" using pi_upper by linarith
  show "4544 / 100000 \<le> sin_lo (4546 / 100000)" by (simp add: sin_lo_def power_divide)
  show "sin_hi (4549 / 100000) \<le> 4548 / 100000" by (simp add: sin_hi_def power_divide)
qed simp_all

lemma sin_dLon_claimed:
  "4162 / 100000 \<le> sin (6951 / 524288 * pi) \<and> sin (6951 / 524288 * pi) \<le> 4165 / 100000"
proof (rule sin_bracket [of "4164 / 100000" _ "4166 / 100000"])
  show "4164 / 100000 \<le> 6951 / 524288 * pi" using pi_lower by linarith
  show "6951 / 524288 * pi \<le> 4166 / 100000" using pi_upper by linarith
  show "4162 / 100000 \<le> sin_lo (4164 / 100000)" by (simp add: sin_lo_def power_divide)
  show "sin_hi (4166 / 100000) \<le> 4165 / 100000" by (simp add: sin_hi_def power_divide)
qed simp_all

lemma sin_half_lat_claimed:
  "40117 / 100000 \<le> sin (551257 / 4194304 * pi) \<and> sin (551257 / 4194304 * pi) \<le> 40136 / 100000"
proof (rule sin_bracket [of "4128 / 10000" _ "4130 / 10000"])
  show "4128 / 10000 \<le> 551257 / 4194304 * pi" using pi_lower by linarith
  show "551257 / 4194304 * pi \<le> 4130 / 10000" using pi_upper by linarith
  show "40117 / 100000 \<le> sin_lo (4128 / 10000)" by (simp add: sin_lo_def power_divide)
  show "sin_hi (4130 / 10000) \<le> 40136 / 100000" by (simp add: sin_hi_def power_divide)
qed simp_all


lemma haversine_claimed_cell:
  "671 \<le> haversineDistance (24806565 / 524288) (2255175 / 262144) (27538515 / 524288) (3506355 / 262144)
   \<and> haversineDistance (24806565 / 524288) (2255175 / 262144) (27538515 / 524288) (3506355 / 262144) \<le> 676"
proof -
  define s1 where "s1 = sin (30355 / 2097152 * pi)"
  define s2 where "s2 = sin (6951 / 524288 * pi)"
  define c1 where "c1 = cos (2 * (551257 / 4194304 * pi))"
  define c2 where "c2 = cos (2 * (611967 / 4194304 * pi))"
  define a where "a = s1 * s1 + s2 * s2 * c1 * c2"
  define \<theta> where "\<theta> = Atan2 (sqrt a) (sqrt (1 - a))"
  have d1: "degToRad (27538515 / 524288 - 24806565 / 524288) / 2 = 30355 / 2097152 * pi"
    by (simp add: degToRad_def)
  have d2: "degToRad (3506355 / 262144 - 2255175 / 262144) / 2 = 6951 / 524288 * pi"
    by (simp add: degToRad_def)
  have d3: "degToRad (24806565 / 524288) = 2 * (551257 / 4194304 * pi)"
    by (simp add: degToRad_def)
  have d4: "degToRad (27538515 / 524288) = 2 * (611967 / 4194304 * pi)"
    by (simp add: degToRad_def)
  have h: "haversineDistance (24806565 / 524288) (2255175 / 262144) (27538515 / 524288)
             (3506355 / 262144) = 6371 * (2 * \<theta>)"
    unfolding haversineDistance_def Let_def d1 d2 d3 d4 earthRadiusKm_def
      \<theta>_def a_def s1_def s2_def c1_def c2_def ..
  have b1: "4544 / 100000 \<le> s1" "s1 \<le> 4548 / 100000"
    using sin_dLat_claimed by (simp_all add: s1_def)
  have b2: "4162 / 100000 \<le> s2" "s2 \<le> 4165 / 100000"
    using sin_dLon_claimed by (simp_all add: s2_def)
  have b3: "6777 / 10000 \<le> c1" "c1 \<le> 6783 / 10000"
    using cos_from_half [of "40117 / 100000" "551257 / 4194304 * pi" "40136 / 100000"] sin_half_lat_claimed
    by (simp_all add: c1_def)
  have b4: "6081 / 10000 \<le> c2" "c2 \<le> 6087 / 10000"
    using cos_from_half [of "44233 / 100000" "611967 / 4194304 * pi" "44261 / 100000"] sin_half_lat_berlin
    by (simp_all add: c2_def)
  have p1: "2064 / 1000000 \<le> s1 * s1" "s1 * s1 \<le> 2069 / 1000000"
    using prod_bounds [of "4544 / 100000" s1 "4548 / 100000" "4544 / 100000" s1 "4548 / 100000"] b1
    by simp_all
  have p2: "17322 / 10000000 \<le> s2 * s2" "s2 * s2 \<le> 17348 / 10000000"
    using prod_bounds [of "4162 / 100000" s2 "4165 / 100000" "4162 / 100000" s2 "4165 / 100000"] b2
    by simp_all
  have p3: "11739 / 10000000 \<le> s2 * s2 * c1" "s2 * s2 * c1 \<le> 11768 / 10000000"
    using prod_bounds [of "17322 / 10000000" "s2 * s2" "17348 / 10000000" "6777 / 10000" c1 "6783 / 10000"]
      p2 b3
    by simp_all
  have p4: "7138 / 10000000 \<le> s2 * s2 * c1 * c2" "s2 * s2 * c1 * c2 \<le> 7164 / 10000000"
    using prod_bounds [of "11739 / 10000000" "s2 * s2 * c1" "11768 / 10000000" "6081 / 10000" c2 "6087 / 10000"]
      p3 b4
    by simp_all
  from p1 p4 have ab: "27778 / 10000000 \<le> a" "a \<le> 27854 / 10000000"
    unfolding a_def by linarith+
  then have a01: "0 \<le> a" "a < 1" by linarith+
  have sl: "527 / 10000 \<le> sqrt a"
    by (rule real_le_rsqrt) (use ab in \<open>simp add: power2_eq_square\<close>)
  have su: "sqrt a \<le> 528 / 10000"
    by (rule real_le_lsqrt) (use ab in \<open>simp_all add: power2_eq_square\<close>)
  have "(528 / 10000 :: real) \<le> sin_lo (53 / 1000)"
    by (simp add: sin_lo_def power_divide)
  with su have su': "sqrt a \<le> sin_lo (53 / 1000)" by linarith
  from Atan2_sqrt [OF a01] have t: "sin \<theta> = sqrt a" "0 \<le> \<theta>" "\<theta> < pi / 2"
    by (simp_all add: \<theta>_def)
  have "527 / 10000 \<le> \<theta> \<and> \<theta> \<le> 53 / 1000"
    by (rule angle_bounds [OF t _ _ sl _ _ su']) simp_all
  then show ?thesis unfolding h by simp
qed

section \<open>The claims\<close>

text \<open>
  Claim C1. For a latitude in \<open>[-90, 90]\<close>, a longitude in \<open>[-180, 180]\<close> and a precision
  in \<open>[1, 12]\<close>, \<^verbatim>\<open>Encode\<close> returns what the reference bit-interleaving algorithm
  returns: \<open>precision * 5\<close> bits, longitude first, a bit being 1 exactly when the coordinate
  is strictly greater than the midpoint of the active range, grouped by five, most
  significant bit first, each group indexing the alphabet. The result has \<open>precision\<close>
  characters and each of them is in the alphabet.
\<close>

theorem Encode_refines_reference:
  assumes "- 90 \<le> lat" "lat \<le> 90" "- 180 \<le> lon" "lon \<le> 180"
    and "1 \<le> precision" "precision \<le> 12"
  shows "Encode lat lon precision = Inr (ref_encode lat lon (nat precision))
     \<and> length (ref_bits (nat precision * 5) True lat lon (- 90, 90) (- 180, 180)) = nat precision * 5
     \<and> length (ref_encode lat lon (nat precision)) = nat precision
     \<and> (\<forall>c \<in> set (ref_encode lat lon (nat precision)).
           c \<in> set ''0123456789bcdefghjkmnpqrstuvwxyz'')"
proof -
  have "\<forall>c \<in> set (ref_encode lat lon (nat precision)). c \<in> set base32"
    by (blast intro: ref_encode_alphabet)
  then have "\<forall>c \<in> set (ref_encode lat lon (nat precision)).
           c \<in> set ''0123456789bcdefghjkmnpqrstuvwxyz''"
    unfolding base32_def .
  with Encode_ref [OF assms] show ?thesis
    by (simp add: length_ref_encode length_ref_bits)
qed

text \<open>
  At latitude 0 and longitude 0 both coordinates sit on the first midpoint of their range
  and resolve to the lower half: the bits are 0, 0, 1, 1, 1.
\<close>

lemma ref_encode_tie: "ref_encode 0 0 (nat 1) = ''7''"
  by code_simp

theorem Encode_refines_reference_witness:
  "(- 90 \<le> (0::real) \<and> (0::real) \<le> 90 \<and> - 180 \<le> (0::real) \<and> (0::real) \<le> 180
     \<and> (1::int) \<le> 1 \<and> (1::int) \<le> 12)
   \<and> Encode 0 0 1 = Inr ''7''"
  using Encode_refines_reference [of 0 0 1] unfolding ref_encode_tie by simp

text \<open>
  Claim C2. For a non-empty cell string over the alphabet, \<^verbatim>\<open>Decode\<close> and
  \<^verbatim>\<open>BoundingBox\<close> succeed and the decoded point lies within the box; so it does for
  the cell that \<^verbatim>\<open>Encode\<close> returns on a valid latitude, longitude and precision.
\<close>

theorem Decode_within_BoundingBox:
  "(valid_cell g \<longrightarrow>
     (\<exists>lat lon minLat maxLat minLon maxLon.
        Decode g = Inr (lat, lon) \<and> BoundingBox g = Inr (minLat, maxLat, minLon, maxLon)
        \<and> minLat \<le> lat \<and> lat \<le> maxLat \<and> minLon \<le> lon \<and> lon \<le> maxLon))
   \<and> (- 90 \<le> lat0 \<and> lat0 \<le> 90 \<and> - 180 \<le> lon0 \<and> lon0 \<le> 180 \<and> 1 \<le> precision \<and> precision \<le> 12 \<longrightarrow>
     (\<exists>cell lat lon minLat maxLat minLon maxLon.
        Encode lat0 lon0 precision = Inr cell
        \<and> Decode cell = Inr (lat, lon) \<and> BoundingBox cell = Inr (minLat, maxLat, minLon, maxLon)
        \<and> minLat \<le> lat \<and> lat \<le> maxLat \<and> minLon \<le> lon \<and> lon \<le> maxLon))"
proof (intro conjI impI)
  assume "valid_cell g"
  then show "\<exists>lat lon minLat maxLat minLon maxLon.
        Decode g = Inr (lat, lon) \<and> BoundingBox g = Inr (minLat, maxLat, minLon, maxLon)
        \<and> minLat \<le> lat \<and> lat \<le> maxLat \<and> minLon \<le> lon \<and> lon \<le> maxLon"
    by (rule Decode_in_BoundingBox)
next
  assume a: "- 90 \<le> lat0 \<and> lat0 \<le> 90 \<and> - 180 \<le> lon0 \<and> lon0 \<le> 180 \<and> 1 \<le> precision \<and> precision \<le> 12"
  then have e: "Encode lat0 lon0 precision = Inr (ref_encode lat0 lon0 (nat precision))"
    by (intro Encode_ref) simp_all
  from Encode_Inr_cell [OF e] have "valid_cell (ref_encode lat0 lon0 (nat precision))" by simp
  from Decode_in_BoundingBox [OF this] e
  show "\<exists>cell lat lon minLat maxLat minLon maxLon.
        Encode lat0 lon0 precision = Inr cell
        \<and> Decode cell = Inr (lat, lon) \<and> BoundingBox cell = Inr (minLat, maxLat, minLon, maxLon)
        \<and> minLat \<le> lat \<and> lat \<le> maxLat \<and> minLon \<le> lon \<and> lon \<le> maxLon"
    by blast
qed

theorem Decode_within_BoundingBox_witness:
  "valid_cell ''u281'' \<and> (- 90 \<le> (48::real) \<and> (48::real) \<le> 90 \<and> - 180 \<le> (11::real)
     \<and> (11::real) \<le> 180 \<and> (1::int) \<le> 4 \<and> (4::int) \<le> 12)
   \<and> (\<exists>lat lon minLat maxLat minLon maxLon.
        Decode ''u281'' = Inr (lat, lon)
        \<and> BoundingBox ''u281'' = Inr (minLat, maxLat, minLon, maxLon)
        \<and> minLat \<le> lat \<and> lat \<le> maxLat \<and> minLon \<le> lon \<and> lon \<le> maxLon)
   \<and> (\<exists>cell lat lon minLat maxLat minLon maxLon.
        Encode 48 11 4 = Inr cell
        \<and> Decode cell = Inr (lat, lon) \<and> BoundingBox cell = Inr (minLat, maxLat, minLon, maxLon)
        \<and> minLat \<le> lat \<and> lat \<le> maxLat \<and> minLon \<le> lon \<and> lon \<le> maxLon)"
proof -
  have v: "valid_cell ''u281''"
    by (simp add: valid_cell_def base32_def)
  from Decode_within_BoundingBox [of "''u281''" 48 11 4] v show ?thesis
    by simp
qed



text \<open>
  Claim C4. \<^verbatim>\<open>Decode\<close> is to fail with the invalid-character error whenever a character
  of its argument is outside the alphabet. The loop of the source ranges over the code
  points of the string and keeps the low byte of each, \<^verbatim>\<open>byte(char)\<close>, before the lookup.
  The string of the two bytes \<open>0xC4 0xB0\<close>, the encoding of the code point \<open>U+0130\<close>, has no
  byte and no character in the alphabet; its only code point is cut to \<open>0x30\<close>, the
  character \<open>0\<close>, and \<^verbatim>\<open>Decode\<close> returns the centre of the cell \<open>0\<close> and no error.
\<close>

theorem Decode_truncates_code_point:
  "runes [CHR 0xC4, CHR 0xB0] = [0x130]
   \<and> CHR 0xC4 \<notin> set base32 \<and> CHR 0xB0 \<notin> set base32
   \<and> byte_of_rune 0x130 = CHR ''0''
   \<and> Decode [CHR 0xC4, CHR 0xB0] = Inr (- 67.5, - 157.5)
   \<and> Decode ''0'' = Inr (- 67.5, - 157.5)"
proof -
  have w: "dec_bits 0 4 dec_init = \<lparr>latRange = (- 90, - 45), lonRange = (- 180, - 135), even' = False\<rparr>"
    by (simp add: dec_bits_unfold dec_step_def dec_init_def Let_def)
  have "Decode [CHR 0xC4, CHR 0xB0] = Inr (- 67.5, - 157.5)"
    unfolding Decode_def runes_two_bytes
    by (simp add: byte_of_rune_truncates index_zero w Let_def)
  moreover have "Decode ''0'' = Inr (- 67.5, - 157.5)"
  proof -
    have v: "valid_cell ''0''" by (simp add: valid_cell_def base32_def)
    show ?thesis
      unfolding Decode_walk_cell [OF v] by (simp add: index_zero w)
  qed
  moreover have "CHR 0xC4 \<notin> set base32 \<and> CHR 0xB0 \<notin> set base32"
    by (simp add: base32_def)
  ultimately show ?thesis
    using runes_two_bytes byte_of_rune_truncates by blast
qed

text \<open>
  Claim C5. For a valid cell string, \<^verbatim>\<open>Neighbors\<close> returns no error; its result is, in
  the order N, S, E, W, NE, NW, SE, SW, the cells of those of the eight shifted points that
  \<^verbatim>\<open>Encode\<close> accepts, a direction that \<^verbatim>\<open>Encode\<close> rejects contributing nothing; so it
  has at most 8 entries, each as long as the input.
\<close>

theorem Neighbors_valid_cell:
  assumes "valid_cell g"
  shows "\<exists>lat lon minLat maxLat minLon maxLon ns.
           Decode g = Inr (lat, lon) \<and> BoundingBox g = Inr (minLat, maxLat, minLon, maxLon)
           \<and> Neighbors g = Inr ns
           \<and> ns = concat (map ok_list
                     (attempts lat lon (maxLat - minLat) (maxLon - minLon) (int (length g))))
           \<and> length ns \<le> 8 \<and> (\<forall>n \<in> set ns. length n = length g)"
proof -
  from Decode_in_BoundingBox [OF assms] obtain lat lon minLat maxLat minLon maxLon
    where d: "Decode g = Inr (lat, lon)"
      and b: "BoundingBox g = Inr (minLat, maxLat, minLon, maxLon)"
    by blast
  from assms have ne: "g \<noteq> []" by (simp add: valid_cell_def)
  let ?ns = "concat (map ok_list
               (attempts lat lon (maxLat - minLat) (maxLon - minLon) (int (length g))))"
  from Neighbors_unfold [OF d b ne] have n: "Neighbors g = Inr ?ns" .
  from attempts_results [of lat lon "maxLat - minLat" "maxLon - minLon" "int (length g)"]
  have "length ?ns \<le> 8" and "\<forall>n \<in> set ?ns. length n = length g"
    by simp_all
  with d b n show ?thesis by blast
qed

text \<open>
  The cell \<open>0\<close> is the south-west corner of the map: five of its eight shifted points leave
  the valid extent and are left out.
\<close>

lemma Neighbors_corner: "Neighbors ''0'' = Inr [''2'', ''1'', ''3'']"
  by code_simp

theorem Neighbors_valid_cell_witness:
  "valid_cell ''0'' \<and> Neighbors ''0'' = Inr [''2'', ''1'', ''3'']
   \<and> length [''2'', ''1'', ''3''] \<le> 8
   \<and> length ''2'' = length ''0'' \<and> length ''1'' = length ''0'' \<and> length ''3'' = length ''0''"
proof -
  have v: "valid_cell ''0''"
    by (simp add: valid_cell_def base32_def)
  from Neighbors_valid_cell [OF v] show ?thesis
    unfolding Neighbors_corner using v by auto
qed




text \<open>
  Claim C7, as stated, at its own inputs: \<^verbatim>\<open>Encode(48.1351, 11.5820, 8)\<close> returns
  \<open>u281zd9z\<close>, which is not the string \<open>u0qj5v2k\<close> of the claim, and
  \<^verbatim>\<open>Distance(u0qj5v2k, u33db3gz)\<close> is the haversine distance of the two centres, which
  is at least 671 km and so not within 10 km of 504 km.
\<close>

theorem known_vector_counterexample:
  "Encode 48.1351 11.5820 8 = Inr ''u281zd9z''
   \<and> Encode 48.1351 11.5820 8 \<noteq> Inr ''u0qj5v2k''
   \<and> Distance ''u0qj5v2k'' ''u33db3gz''
       = Inr (haversineDistance (24806565 / 524288) (2255175 / 262144) (27538515 / 524288)
               (3506355 / 262144))
   \<and> 671 \<le> haversineDistance (24806565 / 524288) (2255175 / 262144) (27538515 / 524288)
               (3506355 / 262144)
   \<and> \<not> \<bar>haversineDistance (24806565 / 524288) (2255175 / 262144) (27538515 / 524288)
               (3506355 / 262144) - 504\<bar> \<le> 10"
proof -
  have "Encode 48.1351 11.5820 8 \<noteq> Inr ''u0qj5v2k''"
    unfolding Encode_munich by simp
  moreover note Encode_munich Distance_ok [OF Decode_claimed Decode_berlin]
  moreover from haversine_claimed_cell
  have "\<not> \<bar>haversineDistance (24806565 / 524288) (2255175 / 262144) (27538515 / 524288)
               (3506355 / 262144) - 504\<bar> \<le> 10"
    by linarith
  ultimately show ?thesis using haversine_claimed_cell by blast
qed

text \<open>
  Claim C7, amended: \<^verbatim>\<open>Encode(48.1351, 11.5820, 8)\<close> returns \<open>u281zd9z\<close>, and
  \<^verbatim>\<open>Distance(u281zd9z, u33db3gz)\<close> succeeds with the haversine distance of the two
  centres, which is within 10 km of 504 km.
\<close>

theorem known_vector_amended:
  "Encode 48.1351 11.5820 8 = Inr ''u281zd9z''
   \<and> Distance ''u281zd9z'' ''u33db3gz''
       = Inr (haversineDistance (25236675 / 524288) (3036195 / 262144) (27538515 / 524288)
               (3506355 / 262144))
   \<and> \<bar>haversineDistance (25236675 / 524288) (3036195 / 262144) (27538515 / 524288)
               (3506355 / 262144) - 504\<bar> \<le> 10"
proof -
  from haversine_munich_berlin
  have "\<bar>haversineDistance (25236675 / 524288) (3036195 / 262144) (27538515 / 524288)
               (3506355 / 262144) - 504\<bar> \<le> 10"
    by linarith
  with Encode_munich Distance_ok [OF Decode_munich Decode_berlin] show ?thesis by blast
qed

text \<open>The spans of the bounding box of an encoded cell depend on the precision alone.\<close>

lemma Encode_BoundingBox_spans:
  assumes "- 90 \<le> lat" "lat \<le> 90" "- 180 \<le> lon" "lon \<le> 180" "1 \<le> p" "p \<le> 12"
  shows "\<exists>cell minLat maxLat minLon maxLon.
           Encode lat lon p = Inr cell
           \<and> BoundingBox cell = Inr (minLat, maxLat, minLon, maxLon)
           \<and> maxLat - minLat = 180 / 2 ^ (5 * nat p div 2)
           \<and> maxLon - minLon = 360 / 2 ^ ((5 * nat p + 1) div 2)"
proof -
  let ?P = "ref_encode lat lon (nat p)"
  have ep: "Encode lat lon p = Inr ?P"
    using assms by (rule Encode_ref)
  from Encode_Inr_cell [OF ep] have lp: "length ?P = nat p" and vp: "valid_cell ?P"
    by blast+
  from BoundingBox_spans [OF vp] obtain a b c d where
    "BoundingBox ?P = Inr (a, b, c, d)" "b - a = 180 / 2 ^ (5 * length ?P div 2)"
    "d - c = 360 / 2 ^ ((5 * length ?P + 1) div 2)"
    by blast
  then show ?thesis
    unfolding lp using ep by (intro exI [of _ ?P] exI [of _ a] exI [of _ b] exI [of _ c] exI [of _ d]) simp
qed
lemma half_bits_mono:
  "m < n \<Longrightarrow> 5 * m div 2 < 5 * n div 2 \<and> (5 * m + 1) div 2 < (5 * n + 1) div 2" for m n :: nat
  by linarith
lemma pow2_div_less: "i < j \<Longrightarrow> 0 < c \<Longrightarrow> c / 2 ^ j < c / (2 ^ i :: real)"
  by (rule divide_strict_left_mono) simp_all

text \<open>
  Claim C8. For a valid latitude and longitude and precisions \<open>p < q\<close> in \<open>[1, 12]\<close>, the
  bounding box of the cell of precision \<open>q\<close> has a strictly smaller latitude span or a
  strictly smaller longitude span than that of precision \<open>p\<close>; in fact both are strictly
  smaller.
\<close>

theorem BoundingBox_narrows:
  assumes "- 90 \<le> lat" "lat \<le> 90" "- 180 \<le> lon" "lon \<le> 180"
    and "1 \<le> p" "p < q" "q \<le> 12"
  shows "\<exists>cellP cellQ minLatP maxLatP minLonP maxLonP minLatQ maxLatQ minLonQ maxLonQ.
           Encode lat lon p = Inr cellP \<and> Encode lat lon q = Inr cellQ
           \<and> BoundingBox cellP = Inr (minLatP, maxLatP, minLonP, maxLonP)
           \<and> BoundingBox cellQ = Inr (minLatQ, maxLatQ, minLonQ, maxLonQ)
           \<and> (maxLatQ - minLatQ < maxLatP - minLatP \<or> maxLonQ - minLonQ < maxLonP - minLonP)
           \<and> maxLatQ - minLatQ < maxLatP - minLatP
           \<and> maxLonQ - minLonQ < maxLonP - minLonP"
proof -
  from assms have pq: "p \<le> 12" "1 \<le> q" by simp_all
  from Encode_BoundingBox_spans [OF assms(1-5) pq(1)] obtain cellP a b c d
    where ep: "Encode lat lon p = Inr cellP" and bp: "BoundingBox cellP = Inr (a, b, c, d)"
      and sp: "b - a = 180 / 2 ^ (5 * nat p div 2)" "d - c = 360 / 2 ^ ((5 * nat p + 1) div 2)"
    by blast
  from Encode_BoundingBox_spans [OF assms(1-4) pq(2) assms(7)] obtain cellQ a' b' c' d'
    where eq: "Encode lat lon q = Inr cellQ" and bq: "BoundingBox cellQ = Inr (a', b', c', d')"
      and sq: "b' - a' = 180 / 2 ^ (5 * nat q div 2)" "d' - c' = 360 / 2 ^ ((5 * nat q + 1) div 2)"
    by blast
  from assms have "nat p < nat q" by simp
  from half_bits_mono [OF this] have e1: "5 * nat p div 2 < 5 * nat q div 2"
    and e2: "(5 * nat p + 1) div 2 < (5 * nat q + 1) div 2"
    by simp_all
  have "b' - a' < b - a"
    unfolding sp sq by (rule pow2_div_less [OF e1]) simp
  moreover have "d' - c' < d - c"
    unfolding sp sq by (rule pow2_div_less [OF e2]) simp
  ultimately show ?thesis
    using ep eq bp bq
    by blast
qed

theorem BoundingBox_narrows_witness:
  "(- 90 \<le> (0::real) \<and> (0::real) \<le> 90 \<and> - 180 \<le> (0::real) \<and> (0::real) \<le> 180
     \<and> (1::int) \<le> 1 \<and> (1::int) < 2 \<and> (2::int) \<le> 12)
   \<and> (\<exists>cellP cellQ minLatP maxLatP minLonP maxLonP minLatQ maxLatQ minLonQ maxLonQ.
           Encode 0 0 1 = Inr cellP \<and> Encode 0 0 2 = Inr cellQ
           \<and> BoundingBox cellP = Inr (minLatP, maxLatP, minLonP, maxLonP)
           \<and> BoundingBox cellQ = Inr (minLatQ, maxLatQ, minLonQ, maxLonQ)
           \<and> (maxLatQ - minLatQ < maxLatP - minLatP \<or> maxLonQ - minLonQ < maxLonP - minLonP)
           \<and> maxLatQ - minLatQ < maxLatP - minLatP
           \<and> maxLonQ - minLonQ < maxLonP - minLonP)"
proof -
  have h: "- 90 \<le> (0::real)" "(0::real) \<le> 90" "- 180 \<le> (0::real)" "(0::real) \<le> 180"
    "(1::int) \<le> 1" "(1::int) < 2" "(2::int) \<le> 12"
    by simp_all
  from BoundingBox_narrows [OF h] h show ?thesis by blast
qed

text \<open>
  Claim C10. \<^verbatim>\<open>Decode\<close> and \<^verbatim>\<open>BoundingBox\<close> succeed on every non-empty string over
  the alphabet, whatever its length; on such a string of more than 12 bytes \<^verbatim>\<open>Neighbors\<close>
  returns no error and the empty list, since \<^verbatim>\<open>Encode\<close> rejects every call at that
  precision.
\<close>

theorem no_length_bound:
  "(valid_cell g \<longrightarrow> (\<exists>lat lon. Decode g = Inr (lat, lon))
                      \<and> (\<exists>box. BoundingBox g = Inr box))
   \<and> (valid_cell g \<and> 12 < length g \<longrightarrow> Neighbors g = Inr [])"
proof (rule conjI; rule impI)
  assume "valid_cell g"
  from Decode_in_BoundingBox [OF this]
  show "(\<exists>lat lon. Decode g = Inr (lat, lon)) \<and> (\<exists>box. BoundingBox g = Inr box)"
    by blast
next
  assume a: "valid_cell g \<and> 12 < length g"
  then have v: "valid_cell g" and ne: "g \<noteq> []" and big: "12 < int (length g)"
    by (simp_all add: valid_cell_def)
  from Decode_in_BoundingBox [OF v] obtain lat lon minLat maxLat minLon maxLon
    where d: "Decode g = Inr (lat, lon)"
      and b: "BoundingBox g = Inr (minLat, maxLat, minLon, maxLon)"
    by blast
  show "Neighbors g = Inr []"
    unfolding Neighbors_unfold [OF d b ne] attempts_big_precision [OF big] ..
qed

theorem no_length_bound_witness:
  "valid_cell ''u281zd9zu281z'' \<and> 12 < length ''u281zd9zu281z''
   \<and> (\<exists>lat lon. Decode ''u281zd9zu281z'' = Inr (lat, lon))
   \<and> (\<exists>box. BoundingBox ''u281zd9zu281z'' = Inr box)
   \<and> Neighbors ''u281zd9zu281z'' = Inr []"
proof -
  have v: "valid_cell ''u281zd9zu281z''"
    by (simp add: valid_cell_def base32_def)
  from no_length_bound [of "''u281zd9zu281z''"] v show ?thesis
    by simp
qed

end
